theory Spec2Isabelle
  imports Main
begin

section \<open>The analytics engine: a stream consumer that projects events into a graph\<close>

text \<open>
  The program (\<^verbatim>\<open>analytics-engine/consumer.py\<close>) reads messages of one topic, decodes each
  payload as JSON and, for every message, runs one write transaction that merges a User
  node, a Category node and a POSTED_IN relationship between them. The broker, the JSON
  decoder and the graph database are libraries: what they may answer is an input of the
  model, what the program does with the answer is the model.
\<close>

subsection \<open>Values\<close>

text \<open>
  What \<^verbatim>\<open>json.loads\<close> returns: \<^verbatim>\<open>None\<close>, a bool, an int, a float, a str, a list or a
  dict with string keys. A dict is the list of its items, each key at most once, read by
  \<^const>\<open>map_of\<close>. A float is a finite double (\<open>Finite m e\<close> stands for \<open>m * 2 ^ e\<close>), an
  infinity or NaN, which \<^verbatim>\<open>json.loads\<close> accepts; nothing in the program computes on one.
\<close>

datatype pyfloat = Finite int int | PosInf | NegInf | NaN

datatype json =
    JNull
  | JBool bool
  | JInt int
  | JFloat pyfloat
  | JStr string
  | JList "json list"
  | JObj "(string \<times> json) list"

text \<open>
  Where one attempt at the transaction can fail: the store cannot be reached when the
  transaction begins (before the transaction function is entered), \<^verbatim>\<open>tx.run\<close> raises,
  or the commit fails after the transaction function has returned.
\<close>

datatype failure = Unreachable | RejectsQuery | FailsCommit

text \<open>
  How the graph database answers one \<^verbatim>\<open>write_transaction\<close> call.
  \<^verbatim>\<open>session.write_transaction\<close> is the driver's managed transaction: it begins a
  transaction, calls the transaction function and commits; after an error the driver
  counts as retryable it starts over with a new transaction, for as long as its retry
  time lasts; any other error, and the last retryable one when the time is over, is
  raised to the caller. So an answer is \<open>Healthy\<close> (the attempt commits), \<open>Fails f\<close>
  (the attempt fails at \<open>f\<close> and the error is raised) or \<open>Retry f s\<close> (the attempt fails
  at \<open>f\<close> with a retryable error and the driver tries again, with answer \<open>s\<close>).
  \<^verbatim>\<open>driver.session()\<close> only builds the session object; the store is first contacted
  when a transaction begins.
\<close>

datatype store = Healthy | Fails failure | Retry failure store

text \<open>The exceptions of the program; each of them is an \<^verbatim>\<open>Exception\<close> in Python.\<close>

datatype exn =
    UnicodeDecodeError
  | JSONDecodeError
  | KeyError string
  | TypeError
  | Neo4jError failure

subsection \<open>The graph store\<close>

text \<open>
  The property graph as far as the program can write it: nodes with an identity the store
  chooses, one label and the property \<^verbatim>\<open>name\<close>; POSTED_IN relationships as pairs (start
  node, end node). Both are lists, so that a duplicate node or a duplicate relationship is
  a state of the model that a theorem has to exclude.
\<close>

datatype label = User | Category

record node =
  node_id :: nat
  node_label :: label
  node_name :: json

record graph =
  nodes :: "node list"
  rels :: "(nat \<times> nat) list"

definition empty_graph :: graph where
  "empty_graph = \<lparr>nodes = [], rels = []\<rparr>"

definition fresh_id :: "graph \<Rightarrow> nat" where
  "fresh_id g = Suc (foldr max (map node_id (nodes g)) 0)"

text \<open>The nodes a pattern \<^verbatim>\<open>(:Label {name: v})\<close> matches, by identity.\<close>

definition matching :: "label \<Rightarrow> json \<Rightarrow> graph \<Rightarrow> nat list" where
  "matching l v g =
     map node_id (filter (\<lambda>n. node_label n = l \<and> node_name n = v) (nodes g))"

text \<open>
  \<^verbatim>\<open>MERGE (x:Label {name: v})\<close>: bind every node the pattern matches; when there is
  none, create one and bind it.
\<close>

definition merge_node :: "label \<Rightarrow> json \<Rightarrow> graph \<Rightarrow> graph \<times> nat list" where
  "merge_node l v g =
     (let ms = matching l v g in
      if ms = [] then
        (let i = fresh_id g in
         (g\<lparr>nodes := nodes g @ [\<lparr>node_id = i, node_label = l, node_name = v\<rparr>]\<rparr>, [i]))
      else (g, ms))"

text \<open>
  \<^verbatim>\<open>MERGE (u)-[:POSTED_IN]->(c)\<close> for one binding of \<^verbatim>\<open>u\<close> and \<^verbatim>\<open>c\<close>: create the
  relationship unless one exists.
\<close>

definition merge_rel :: "nat \<times> nat \<Rightarrow> graph \<Rightarrow> graph" where
  "merge_rel r g = (if r \<in> set (rels g) then g else g\<lparr>rels := rels g @ [r]\<rparr>)"

text \<open>
  The query of \<^verbatim>\<open>update_graph\<close>, clause by clause. The third clause runs once for every
  pair of bound nodes.
  \<^verbatim>\<open>
  MERGE (u:User {name: $user})
  MERGE (c:Category {name: $category})
  MERGE (u)-[:POSTED_IN]->(c)
  \<close>
\<close>

definition query :: "graph \<Rightarrow> json \<Rightarrow> json \<Rightarrow> graph" where
  "query g user category =
     (case merge_node User user g of (g1, us) \<Rightarrow>
      case merge_node Category category g1 of (g2, cs) \<Rightarrow>
        fold merge_rel (List.product us cs) g2)"

subsection \<open>What the program does to the world\<close>

text \<open>
  The lines the program prints, by their format string, and the calls it makes to the
  driver. The world is the committed graph, the printed lines and the calls made so far.
\<close>

datatype line =
    Received json
  | GraphUpdated json json
  | Neo4jErrorLine exn

datatype call =
    SessionOpen
  | WriteTransaction json json
  | TxRun json json
  | SessionClose

record world =
  store_graph :: graph
  stdout :: "line list"
  calls :: "call list"

definition print :: "line \<Rightarrow> world \<Rightarrow> world" where
  "print l w = w\<lparr>stdout := stdout w @ [l]\<rparr>"

definition called :: "call \<Rightarrow> world \<Rightarrow> world" where
  "called c w = w\<lparr>calls := calls w @ [c]\<rparr>"

text \<open>
  \<^verbatim>\<open>
  def update_graph(tx, user, category):
      query = (...)
      tx.run(query, user=user, category=category)
      print(f"Graph Updated: {user} -> {category}")
  \<close>
  The first argument of the model is where the attempt fails, if it does; the second is
  the graph as the transaction sees it; the result is that graph after the query, or the
  exception of \<^verbatim>\<open>tx.run\<close>.
\<close>

definition update_graph ::
  "failure option \<Rightarrow> graph \<Rightarrow> json \<Rightarrow> json \<Rightarrow> world \<Rightarrow> (exn + graph) \<times> world" where
  "update_graph a tx user category w =
     (let w1 = called (TxRun user category) w in
      if a = Some RejectsQuery then (Inl (Neo4jError RejectsQuery), w1)
      else (Inr (query tx user category), print (GraphUpdated user category) w1))"

text \<open>
  One attempt of the managed transaction: begin a transaction, call the transaction
  function, commit when it returns and roll back when it raises. The committed graph
  changes on a commit only.
\<close>

definition attempt ::
  "failure option \<Rightarrow> json \<Rightarrow> json \<Rightarrow> world \<Rightarrow> (exn + unit) \<times> world" where
  "attempt a user category w =
     (if a = Some Unreachable then (Inl (Neo4jError Unreachable), w)
      else
        (case update_graph a (store_graph w) user category w of
          (Inl e, w1) \<Rightarrow> (Inl e, w1)
        | (Inr g, w1) \<Rightarrow>
            if a = Some FailsCommit then (Inl (Neo4jError FailsCommit), w1)
            else (Inr (), w1\<lparr>store_graph := g\<rparr>)))"

text \<open>
  The driver's retry loop: the result of the attempt is returned or raised, except after
  a retryable error, when the next attempt starts from what the failed one left (its
  calls and its output; the graph is as before).
\<close>

fun managed :: "store \<Rightarrow> json \<Rightarrow> json \<Rightarrow> world \<Rightarrow> (exn + unit) \<times> world" where
  "managed Healthy user category w = attempt None user category w"
| "managed (Fails f) user category w = attempt (Some f) user category w"
| "managed (Retry f s) user category w =
     (case attempt (Some f) user category w of (_, w1) \<Rightarrow> managed s user category w1)"

text \<open>\<^verbatim>\<open>session.write_transaction(update_graph, user, category)\<close>, one call.\<close>

definition write_transaction ::
  "store \<Rightarrow> json \<Rightarrow> json \<Rightarrow> world \<Rightarrow> (exn + unit) \<times> world" where
  "write_transaction s user category w =
     managed s user category (called (WriteTransaction user category) w)"

text \<open>
  \<^verbatim>\<open>data[key]\<close>: a dict without the key raises KeyError, every other JSON value raises
  TypeError on a string subscript.
\<close>

fun subscript :: "json \<Rightarrow> string \<Rightarrow> exn + json" where
  "subscript (JObj kvs) k = (case map_of kvs k of None \<Rightarrow> Inl (KeyError k) | Some v \<Rightarrow> Inr v)"
| "subscript _ k = Inl TypeError"

text \<open>
  The call of line 42 with its arguments, evaluated left to right before the call:
  \<^verbatim>\<open>session.write_transaction(update_graph, data['user'], data['category'])\<close>
\<close>

definition write_event :: "store \<Rightarrow> json \<Rightarrow> world \<Rightarrow> (exn + unit) \<times> world" where
  "write_event s data w =
     (case subscript data ''user'' of
        Inl e \<Rightarrow> (Inl e, w)
      | Inr user \<Rightarrow>
          (case subscript data ''category'' of
             Inl e \<Rightarrow> (Inl e, w)
           | Inr category \<Rightarrow> write_transaction s user category w))"

text \<open>
  \<^verbatim>\<open>with driver.session() as session: ...\<close>: the session is closed when the block is
  left, by its end or by an exception.
\<close>

definition with_session :: "store \<Rightarrow> json \<Rightarrow> world \<Rightarrow> (exn + unit) \<times> world" where
  "with_session s data w =
     (case write_event s data (called SessionOpen w) of
        (r, w1) \<Rightarrow> (r, called SessionClose w1))"

text \<open>
  The body of the loop, for the decoded value of one message:
  \<^verbatim>\<open>
  data = message.value
  print(f"Received Event: {data}")
  try:
      with driver.session() as session:
          session.write_transaction(update_graph, data['user'], data['category'])
  except Exception as e:
      print(f"Neo4j Error: {e}")
  \<close>
\<close>

definition loop_body :: "store \<Rightarrow> json \<Rightarrow> world \<Rightarrow> world" where
  "loop_body s data w =
     (case with_session s data (print (Received data) w) of
        (Inl e, w1) \<Rightarrow> print (Neo4jErrorLine e) w1
      | (Inr _, w1) \<Rightarrow> w1)"

text \<open>
  \<^verbatim>\<open>value_deserializer=lambda x: json.loads(x.decode('utf-8'))\<close>, over the two library
  functions it composes.
\<close>

definition value_deserializer ::
  "('b \<Rightarrow> exn + 't) \<Rightarrow> ('t \<Rightarrow> exn + json) \<Rightarrow> 'b \<Rightarrow> exn + json" where
  "value_deserializer decode loads x =
     (case decode x of Inl e \<Rightarrow> Inl e | Inr t \<Rightarrow> loads t)"

text \<open>
  \<^verbatim>\<open>for message in consumer: ...\<close> on the messages delivered so far, each with the answer
  of the store while it is processed. The consumer applies the deserializer when it
  yields a message, in the \<^verbatim>\<open>for\<close> statement and so outside the \<^verbatim>\<open>try\<close>: an
  exception of the deserializer ends the loop. When the messages are used up the loop
  waits for the next one.
\<close>

datatype status = Listening | Terminated exn

fun main_loop ::
  "('b \<Rightarrow> exn + 't) \<Rightarrow> ('t \<Rightarrow> exn + json) \<Rightarrow> ('b \<times> store) list \<Rightarrow> world \<Rightarrow> status \<times> world"
  where
  "main_loop decode loads [] w = (Listening, w)"
| "main_loop decode loads ((x, s) # ms) w =
     (case value_deserializer decode loads x of
        Inl e \<Rightarrow> (Terminated e, w)
      | Inr data \<Rightarrow> main_loop decode loads ms (loop_body s data w))"

subsection \<open>Observing an answer of the store\<close>

text \<open>
  The attempts of one \<^verbatim>\<open>write_transaction\<close> call, in order, each with the place where it
  fails or \<open>None\<close> when it commits; the error the call raises, if it does; the number of
  attempts that enter the transaction function; and the number of attempts in which
  \<^verbatim>\<open>tx.run\<close> returns.
\<close>

fun attempts :: "store \<Rightarrow> failure option list" where
  "attempts Healthy = [None]"
| "attempts (Fails f) = [Some f]"
| "attempts (Retry f s) = Some f # attempts s"

definition raised :: "store \<Rightarrow> failure option" where
  "raised s = last (attempts s)"

definition runs :: "store \<Rightarrow> nat" where
  "runs s = length (filter (\<lambda>a. a \<noteq> Some Unreachable) (attempts s))"

definition prints :: "store \<Rightarrow> nat" where
  "prints s = length (filter (\<lambda>a. a = None \<or> a = Some FailsCommit) (attempts s))"

subsection \<open>Observing the graph\<close>

text \<open>
  A graph is consistent when node identities are distinct, no two nodes share label and
  name, no relationship is stored twice and every relationship joins nodes of the graph.
  The empty graph is consistent and the loop keeps a consistent graph consistent, whatever
  it receives. \<open>posted_in u c g\<close> lists the relationships from a User node named \<open>u\<close> to
  a Category node named \<open>c\<close>; \<open>merged g u c\<close> is the graph after the two node clauses of
  the query.
\<close>

definition node_key :: "node \<Rightarrow> label \<times> json" where
  "node_key n = (node_label n, node_name n)"

definition node_ids :: "graph \<Rightarrow> nat list" where
  "node_ids g = map node_id (nodes g)"

definition consistent :: "graph \<Rightarrow> bool" where
  "consistent g \<longleftrightarrow>
     distinct (node_ids g) \<and> distinct (map node_key (nodes g)) \<and> distinct (rels g) \<and>
     set (map fst (rels g)) \<subseteq> set (node_ids g) \<and> set (map snd (rels g)) \<subseteq> set (node_ids g)"

definition posted_in :: "json \<Rightarrow> json \<Rightarrow> graph \<Rightarrow> (nat \<times> nat) list" where
  "posted_in u c g =
     filter (\<lambda>r. fst r \<in> set (matching User u g) \<and> snd r \<in> set (matching Category c g)) (rels g)"

definition merged :: "graph \<Rightarrow> json \<Rightarrow> json \<Rightarrow> graph" where
  "merged g u c = fst (merge_node Category c (fst (merge_node User u g)))"

subsection \<open>Example inputs\<close>

text \<open>
  Stand-ins for \<^verbatim>\<open>bytes.decode\<close> and \<^verbatim>\<open>json.loads\<close> in the examples: they answer as
  the library does on the payloads used there (ASCII texts, listed with their values;
  the truncated text of a malformed payload is not among them). The theorems hold for
  every pair of functions.
\<close>

definition payload_alice_electronics :: string where
  \<open>payload_alice_electronics = ''{"user": "alice", "category": "electronics"}''\<close>

definition payload_alice_books :: string where
  \<open>payload_alice_books = ''{"user": "alice", "category": "books"}''\<close>

definition payload_bob_books :: string where
  \<open>payload_bob_books = ''{"user": "bob", "category": "books"}''\<close>

definition payload_no_category :: string where
  \<open>payload_no_category = ''{"user": "alice"}''\<close>

definition payload_extra_field :: string where
  \<open>payload_extra_field = ''{"user": "alice", "category": "books", "price": 10}''\<close>

definition payload_not_strings :: string where
  \<open>payload_not_strings = ''{"user": 7, "category": null}''\<close>

definition payload_truncated :: string where
  \<open>payload_truncated = ''{"user": "alice"''\<close>

definition example_decode :: "string \<Rightarrow> exn + string" where
  "example_decode x = Inr x"

definition example_texts :: "(string \<times> json) list" where
  "example_texts =
     [(payload_alice_electronics,
         JObj [(''user'', JStr ''alice''), (''category'', JStr ''electronics'')]),
      (payload_alice_books,
         JObj [(''user'', JStr ''alice''), (''category'', JStr ''books'')]),
      (payload_bob_books,
         JObj [(''user'', JStr ''bob''), (''category'', JStr ''books'')]),
      (payload_no_category,
         JObj [(''user'', JStr ''alice'')]),
      (payload_extra_field,
         JObj [(''user'', JStr ''alice''), (''category'', JStr ''books''), (''price'', JInt 10)]),
      (payload_not_strings,
         JObj [(''user'', JInt 7), (''category'', JNull)])]"

definition example_loads :: "string \<Rightarrow> exn + json" where
  "example_loads t =
     (case map_of example_texts t of None \<Rightarrow> Inl JSONDecodeError | Some v \<Rightarrow> Inr v)"

definition start :: world where
  "start = \<lparr>store_graph = empty_graph, stdout = [], calls = []\<rparr>"

section \<open>Properties of the graph store\<close>

lemma foldr_max_ge: "x \<in> set xs \<Longrightarrow> x \<le> foldr max xs (0::nat)"
  by (induction xs) (auto simp: max_def)

lemma fresh_id_new: "fresh_id g \<notin> set (node_ids g)"
proof
  assume "fresh_id g \<in> set (node_ids g)"
  then have "fresh_id g \<le> foldr max (node_ids g) 0" by (rule foldr_max_ge)
  then show False by (simp add: fresh_id_def node_ids_def)
qed

lemma matching_key: "matching l v g = map node_id (filter (\<lambda>n. node_key n = (l, v)) (nodes g))"
  by (simp add: matching_def node_key_def)

lemma filter_key_le1: "distinct (map f xs) \<Longrightarrow> length (filter (\<lambda>x. f x = k) xs) \<le> Suc 0"
proof (induction xs)
  case Nil then show ?case by simp
next
  case (Cons x xs)
  show ?case
  proof (cases "f x = k")
    case True
    from Cons.prems have "f x \<notin> f ` set xs" by simp
    with True have "\<forall>y \<in> set xs. f y \<noteq> k" by (metis imageI)
    then have "filter (\<lambda>x. f x = k) xs = []" by (simp add: filter_empty_conv)
    with True show ?thesis by simp
  next
    case False with Cons show ?thesis by simp
  qed
qed

lemma matching_le1: "consistent g \<Longrightarrow> length (matching l v g) \<le> Suc 0"
  unfolding matching_key consistent_def by (simp add: filter_key_le1)

lemma matching_subset: "set (matching l v g) \<subseteq> set (node_ids g)"
  by (auto simp: matching_def node_ids_def)

lemma matching_empty_iff: "matching l v g = [] \<longleftrightarrow> (l, v) \<notin> set (map node_key (nodes g))"
  by (force simp: matching_key filter_empty_conv)

lemma matching_disjoint:
  assumes "distinct (node_ids g)" "(l, v) \<noteq> (l', v')"
  shows "set (matching l v g) \<inter> set (matching l' v' g) = {}"
proof -
  have "\<And>n m. n \<in> set (nodes g) \<Longrightarrow> m \<in> set (nodes g) \<Longrightarrow> node_id n = node_id m \<Longrightarrow> n = m"
    using assms(1) unfolding node_ids_def by (meson distinct_map inj_onD)
  then have "\<And>n m. n \<in> set (nodes g) \<Longrightarrow> m \<in> set (nodes g) \<Longrightarrow> node_id n = node_id m \<Longrightarrow>
      node_key n = node_key m" by blast
  note same = this
  show ?thesis
  proof (rule ccontr)
    assume "set (matching l v g) \<inter> set (matching l' v' g) \<noteq> {}"
    then obtain i where "i \<in> set (matching l v g)" "i \<in> set (matching l' v' g)" by blast
    then obtain n m where "n \<in> set (nodes g)" "node_key n = (l, v)" "node_id n = i"
      "m \<in> set (nodes g)" "node_key m = (l', v')" "node_id m = i"
      unfolding matching_key by auto
    with same assms(2) show False by metis
  qed
qed


subsection \<open>merge_node\<close>

lemma merge_node_hit: "matching l v g \<noteq> [] \<Longrightarrow> merge_node l v g = (g, matching l v g)"
  by (simp add: merge_node_def Let_def)

lemma merge_node_miss:
  "matching l v g = [] \<Longrightarrow>
   merge_node l v g =
     (g\<lparr>nodes := nodes g @ [\<lparr>node_id = fresh_id g, node_label = l, node_name = v\<rparr>]\<rparr>,
      [fresh_id g])"
  by (simp add: merge_node_def Let_def)

lemma merge_node_rels: "rels (fst (merge_node l v g)) = rels g"
  by (cases "matching l v g = []") (simp_all add: merge_node_hit merge_node_miss)

lemma merge_node_ids: "set (node_ids g) \<subseteq> set (node_ids (fst (merge_node l v g)))"
  by (cases "matching l v g = []") (auto simp: merge_node_hit merge_node_miss node_ids_def)

lemma merge_node_bound: "snd (merge_node l v g) = matching l v (fst (merge_node l v g))"
proof (cases "matching l v g = []")
  case True
  then show ?thesis by (simp add: merge_node_miss) (simp add: matching_def)
next
  case False
  then show ?thesis by (simp add: merge_node_hit)
qed

lemma merge_node_bound_ne: "snd (merge_node l v g) \<noteq> []"
  by (cases "matching l v g = []") (simp_all add: merge_node_hit merge_node_miss)

lemma merge_node_old_ids:
  assumes "a \<in> set (node_ids g)"
  shows "a \<in> set (matching l' v' (fst (merge_node l v g))) \<longleftrightarrow> a \<in> set (matching l' v' g)"
proof (cases "matching l v g = []")
  case True
  from assms have "a \<noteq> fresh_id g" using fresh_id_new by metis
  with True show ?thesis by (auto simp: merge_node_miss matching_def)
next
  case False
  then show ?thesis by (simp add: merge_node_hit)
qed

lemma merge_node_other:
  "(l', v') \<noteq> (l, v) \<Longrightarrow> matching l' v' (fst (merge_node l v g)) = matching l' v' g"
  by (cases "matching l v g = []") (auto simp: merge_node_hit merge_node_miss matching_def)

lemma merge_node_present:
  "matching l' v' g \<noteq> [] \<Longrightarrow> consistent g \<Longrightarrow>
   matching l' v' (fst (merge_node l v g)) = matching l' v' g"
  by (cases "(l', v') = (l, v)") (auto simp: merge_node_hit merge_node_other)

lemma merge_node_consistent:
  assumes "consistent g"
  shows "consistent (fst (merge_node l v g))"
proof (cases "matching l v g = []")
  case True
  then have "(l, v) \<notin> set (map node_key (nodes g))" by (simp add: matching_empty_iff)
  moreover have "fresh_id g \<notin> set (node_ids g)" by (rule fresh_id_new)
  ultimately show ?thesis
    using assms True
    by (auto simp: merge_node_miss consistent_def node_ids_def node_key_def)
next
  case False
  with assms show ?thesis by (simp add: merge_node_hit)
qed

subsection \<open>merge_rel\<close>

lemma merge_rel_nodes: "nodes (merge_rel r g) = nodes g"
  by (simp add: merge_rel_def)

lemma merge_rel_matching: "matching l v (merge_rel r g) = matching l v g"
  by (simp add: matching_def merge_rel_nodes)

lemma merge_rel_mem: "r \<in> set (rels (merge_rel r g))"
  by (simp add: merge_rel_def)

lemma merge_rel_present: "r \<in> set (rels g) \<Longrightarrow> merge_rel r g = g"
  by (simp add: merge_rel_def)

lemma merge_rel_consistent:
  "consistent g \<Longrightarrow> fst r \<in> set (node_ids g) \<Longrightarrow> snd r \<in> set (node_ids g) \<Longrightarrow>
   consistent (merge_rel r g)"
  by (auto simp: merge_rel_def consistent_def node_ids_def)


subsection \<open>query\<close>

lemma merged_consistent: "consistent g \<Longrightarrow> consistent (merged g u c)"
  by (simp add: merged_def merge_node_consistent)

lemma merged_rels: "rels (merged g u c) = rels g"
  by (simp add: merged_def merge_node_rels)

lemma merged_ids: "set (node_ids g) \<subseteq> set (node_ids (merged g u c))"
  unfolding merged_def using merge_node_ids by (meson subset_trans)

lemma merged_old_ids:
  assumes "a \<in> set (node_ids g)"
  shows "a \<in> set (matching l v (merged g u c)) \<longleftrightarrow> a \<in> set (matching l v g)"
proof -
  from assms have "a \<in> set (node_ids (fst (merge_node User u g)))"
    using merge_node_ids by blast
  then show ?thesis
    unfolding merged_def by (simp add: merge_node_old_ids assms)
qed

lemma merged_user: "matching User u (merged g u c) = snd (merge_node User u g)"
  by (simp add: merged_def merge_node_other merge_node_bound)

lemma merged_category:
  "matching Category c (merged g u c) = snd (merge_node Category c (fst (merge_node User u g)))"
  by (simp add: merged_def merge_node_bound)

lemma length_one: "length xs \<le> Suc 0 \<Longrightarrow> xs \<noteq> [] \<Longrightarrow> \<exists>x. xs = [x]"
  by (cases xs) auto

lemma merged_user_one: "consistent g \<Longrightarrow> \<exists>i. matching User u (merged g u c) = [i]"
proof (rule length_one)
  assume "consistent g"
  then show "length (matching User u (merged g u c)) \<le> Suc 0"
    by (simp add: matching_le1 merged_consistent)
  show "matching User u (merged g u c) \<noteq> []"
    by (simp add: merged_user merge_node_bound_ne)
qed

lemma merged_category_one: "consistent g \<Longrightarrow> \<exists>j. matching Category c (merged g u c) = [j]"
proof (rule length_one)
  assume "consistent g"
  then show "length (matching Category c (merged g u c)) \<le> Suc 0"
    by (simp add: matching_le1 merged_consistent)
  show "matching Category c (merged g u c) \<noteq> []"
    by (simp add: merged_category merge_node_bound_ne)
qed

lemma query_merged:
  "query g u c =
     fold merge_rel
       (List.product (matching User u (merged g u c)) (matching Category c (merged g u c)))
       (merged g u c)"
proof -
  obtain g1 us where 1: "merge_node User u g = (g1, us)" by (cases "merge_node User u g")
  obtain g2 cs where 2: "merge_node Category c g1 = (g2, cs)"
    by (cases "merge_node Category c g1")
  have "merged g u c = g2" by (simp add: merged_def 1 2)
  moreover have "matching User u (merged g u c) = us" by (simp add: merged_user 1)
  moreover have "matching Category c (merged g u c) = cs" by (simp add: merged_category 1 2)
  ultimately show ?thesis by (simp add: query_def 1 2)
qed

lemma query_shape:
  assumes "consistent g"
  shows "\<exists>i j. matching User u (merged g u c) = [i] \<and> matching Category c (merged g u c) = [j] \<and>
           query g u c = merge_rel (i, j) (merged g u c)"
proof -
  from assms obtain i where i: "matching User u (merged g u c) = [i]"
    using merged_user_one by blast
  from assms obtain j where j: "matching Category c (merged g u c) = [j]"
    using merged_category_one by blast
  have "query g u c = merge_rel (i, j) (merged g u c)"
    by (simp add: query_merged i j)
  with i j show ?thesis by blast
qed

lemma query_matching: "matching l v (query g u c) = matching l v (merged g u c)"
proof -
  have "\<And>h. matching l v (fold merge_rel ps h) = matching l v h" for ps
    by (induction ps) (simp_all add: merge_rel_matching)
  then show ?thesis by (simp add: query_merged)
qed

lemma query_consistent:
  assumes "consistent g"
  shows "consistent (query g u c)"
proof -
  from query_shape [OF assms] obtain i j where
    i: "matching User u (merged g u c) = [i]" and
    j: "matching Category c (merged g u c) = [j]" and
    q: "query g u c = merge_rel (i, j) (merged g u c)" by blast
  have "i \<in> set (node_ids (merged g u c))" "j \<in> set (node_ids (merged g u c))"
    using i j matching_subset [of User u "merged g u c"]
      matching_subset [of Category c "merged g u c"] by auto
  then show ?thesis
    by (simp add: q merge_rel_consistent merged_consistent assms)
qed

lemma query_user_one: "consistent g \<Longrightarrow> length (matching User u (query g u c)) = 1"
  using merged_user_one [of g u c] by (auto simp: query_matching)

lemma query_category_one: "consistent g \<Longrightarrow> length (matching Category c (query g u c)) = 1"
  using merged_category_one [of g c u] by (auto simp: query_matching)

lemma query_keeps:
  assumes "consistent g" "matching l v g \<noteq> [] \<or> ((l, v) \<noteq> (User, u) \<and> (l, v) \<noteq> (Category, c))"
  shows "matching l v (query g u c) = matching l v g"
proof -
  from assms(2) show ?thesis
  proof
    assume ne: "matching l v g \<noteq> []"
    then have 1: "matching l v (fst (merge_node User u g)) = matching l v g"
      by (simp add: merge_node_present assms(1))
    with ne have "matching l v (merged g u c) = matching l v g"
      unfolding merged_def by (simp add: merge_node_present merge_node_consistent assms(1))
    then show ?thesis by (simp add: query_matching)
  next
    assume "(l, v) \<noteq> (User, u) \<and> (l, v) \<noteq> (Category, c)"
    then show ?thesis by (simp add: query_matching merged_def merge_node_other)
  qed
qed


subsection \<open>posted_in\<close>

lemma filter_eq_single: "distinct xs \<Longrightarrow> a \<in> set xs \<Longrightarrow> filter (\<lambda>x. x = a) xs = [a]"
proof (induction xs)
  case Nil then show ?case by simp
next
  case (Cons x xs)
  show ?case
  proof (cases "x = a")
    case True
    with Cons.prems have "a \<notin> set xs" by simp
    then have "filter (\<lambda>x. x = a) xs = []" by (auto simp: filter_empty_conv)
    with True show ?thesis by simp
  next
    case False with Cons show ?thesis by simp
  qed
qed

lemma posted_in_single:
  assumes "distinct (rels g)" "matching User u g = [i]" "matching Category c g = [j]"
    "(i, j) \<in> set (rels g)"
  shows "posted_in u c g = [(i, j)]"
proof -
  have "posted_in u c g = filter (\<lambda>r. r = (i, j)) (rels g)"
    unfolding posted_in_def assms(2,3) by (rule filter_cong) auto
  with assms(1,4) show ?thesis by (simp add: filter_eq_single)
qed

lemma query_posted_same:
  assumes "consistent g"
  shows "length (posted_in u c (query g u c)) = 1"
proof -
  from query_shape [OF assms] obtain i j where
    i: "matching User u (merged g u c) = [i]" and
    j: "matching Category c (merged g u c) = [j]" and
    q: "query g u c = merge_rel (i, j) (merged g u c)" by blast
  have "distinct (rels (query g u c))"
    using query_consistent [OF assms] by (simp add: consistent_def)
  moreover have "matching User u (query g u c) = [i]" by (simp add: query_matching i)
  moreover have "matching Category c (query g u c) = [j]" by (simp add: query_matching j)
  moreover have "(i, j) \<in> set (rels (query g u c))" by (simp add: q merge_rel_mem)
  ultimately have "posted_in u c (query g u c) = [(i, j)]" by (rule posted_in_single)
  then show ?thesis by simp
qed

lemma query_posted_other:
  assumes "consistent g" "u' \<noteq> u \<or> c' \<noteq> c"
  shows "posted_in u' c' (query g u c) = posted_in u' c' g"
proof -
  let ?m = "merged g u c"
  let ?P = "\<lambda>r. fst r \<in> set (matching User u' ?m) \<and> snd r \<in> set (matching Category c' ?m)"
  from query_shape [OF assms(1)] obtain i j where
    i: "matching User u ?m = [i]" and
    j: "matching Category c ?m = [j]" and
    q: "query g u c = merge_rel (i, j) ?m" by blast
  have dist: "distinct (node_ids ?m)"
    using merged_consistent [OF assms(1)] by (simp add: consistent_def)
  have new: "\<not> ?P (i, j)"
  proof (cases "u' = u")
    case False
    then have "set (matching User u ?m) \<inter> set (matching User u' ?m) = {}"
      using dist by (simp add: matching_disjoint)
    then show ?thesis by (simp add: i)
  next
    case True
    with assms(2) have "c' \<noteq> c" by simp
    then have "set (matching Category c ?m) \<inter> set (matching Category c' ?m) = {}"
      using dist by (simp add: matching_disjoint)
    then show ?thesis by (simp add: j)
  qed
  have "posted_in u' c' (query g u c) = filter ?P (rels (query g u c))"
    by (simp add: posted_in_def query_matching)
  also have "\<dots> = filter ?P (rels g)"
    using new by (auto simp: q merge_rel_def merged_rels)
  also have "\<dots> = posted_in u' c' g"
    unfolding posted_in_def
  proof (rule filter_cong [OF refl])
    fix r assume "r \<in> set (rels g)"
    then have "fst r \<in> set (node_ids g)" "snd r \<in> set (node_ids g)"
      using assms(1) by (auto simp: consistent_def)
    then show "?P r \<longleftrightarrow>
        fst r \<in> set (matching User u' g) \<and> snd r \<in> set (matching Category c' g)"
      by (simp add: merged_old_ids)
  qed
  finally show ?thesis .
qed

lemma query_idem:
  assumes "consistent g"
  shows "query (query g u c) u c = query g u c"
proof -
  let ?q = "query g u c"
  from query_shape [OF assms] obtain i j where
    i: "matching User u (merged g u c) = [i]" and
    j: "matching Category c (merged g u c) = [j]" and
    q: "?q = merge_rel (i, j) (merged g u c)" by blast
  have mi: "matching User u ?q = [i]" by (simp add: query_matching i)
  have mj: "matching Category c ?q = [j]" by (simp add: query_matching j)
  have r: "(i, j) \<in> set (rels ?q)" by (simp add: q merge_rel_mem)
  have "merge_node User u ?q = (?q, [i])" by (simp add: merge_node_hit mi)
  moreover have "merge_node Category c ?q = (?q, [j])" by (simp add: merge_node_hit mj)
  ultimately have "query ?q u c = merge_rel (i, j) ?q" by (simp add: query_def)
  with r show ?thesis by (simp add: merge_rel_present)
qed

lemma empty_consistent: "consistent empty_graph"
  by (simp add: consistent_def empty_graph_def node_ids_def)

section \<open>Properties of the loop\<close>

lemma raised_simps:
  "raised Healthy = None" "raised (Fails f) = Some f" "raised (Retry f s) = raised s"
  by (simp_all add: raised_def) (cases s, simp_all)

lemma runs_simps:
  "runs Healthy = 1" "runs (Fails f) = (if f = Unreachable then 0 else 1)"
  "runs (Retry f s) = (if f = Unreachable then 0 else 1) + runs s"
  by (simp_all add: runs_def)

lemma prints_simps:
  "prints Healthy = 1" "prints (Fails f) = (if f = FailsCommit then 1 else 0)"
  "prints (Retry f s) = (if f = FailsCommit then 1 else 0) + prints s"
  by (simp_all add: prints_def)

lemma attempt_fails:
  "attempt (Some f) u c w =
     (Inl (Neo4jError f),
      w\<lparr>stdout := stdout w @ replicate (if f = FailsCommit then 1 else 0) (GraphUpdated u c),
        calls := calls w @ replicate (if f = Unreachable then 0 else 1) (TxRun u c)\<rparr>)"
  by (cases f) (simp_all add: attempt_def update_graph_def print_def called_def)

lemma attempt_commits:
  "attempt None u c w =
     (Inr (),
      w\<lparr>store_graph := query (store_graph w) u c,
        stdout := stdout w @ [GraphUpdated u c],
        calls := calls w @ [TxRun u c]\<rparr>)"
  by (simp add: attempt_def update_graph_def print_def called_def)

lemma managed_effect:
  "managed s u c w =
     ((case raised s of None \<Rightarrow> Inr () | Some f \<Rightarrow> Inl (Neo4jError f)),
      w\<lparr>store_graph := (if raised s = None then query (store_graph w) u c else store_graph w),
        stdout := stdout w @ replicate (prints s) (GraphUpdated u c),
        calls := calls w @ replicate (runs s) (TxRun u c)\<rparr>)"
proof (induction s arbitrary: w)
  case Healthy
  show ?case by (simp add: attempt_commits raised_simps runs_simps prints_simps)
next
  case (Fails f)
  show ?case by (simp add: attempt_fails raised_simps runs_simps prints_simps)
next
  case (Retry f s)
  show ?case by (simp add: attempt_fails Retry.IH replicate_add raised_simps runs_simps prints_simps)
qed

lemmas run_defs = loop_body_def with_session_def write_event_def write_transaction_def
  print_def called_def

lemma loop_body_written:
  assumes "subscript data ''user'' = Inr u" "subscript data ''category'' = Inr c"
  shows "loop_body s data w =
    \<lparr>store_graph = (if raised s = None then query (store_graph w) u c else store_graph w),
     stdout = stdout w @ Received data # replicate (prints s) (GraphUpdated u c) @
       (case raised s of None \<Rightarrow> [] | Some f \<Rightarrow> [Neo4jErrorLine (Neo4jError f)]),
     calls = calls w @ [SessionOpen, WriteTransaction u c] @
       replicate (runs s) (TxRun u c) @ [SessionClose]\<rparr>"
  using assms by (cases "raised s") (simp_all add: run_defs managed_effect)

lemma loop_body_raised:
  assumes "subscript data ''user'' = Inl e \<or>
      (\<exists>u. subscript data ''user'' = Inr u) \<and> subscript data ''category'' = Inl e"
  shows "loop_body s data w =
    w\<lparr>stdout := stdout w @ [Received data, Neo4jErrorLine e],
      calls := calls w @ [SessionOpen, SessionClose]\<rparr>"
  using assms by (auto simp: run_defs)

lemma loop_body_store_graph:
  "store_graph (loop_body s data w) =
     (case (raised s, subscript data ''user'', subscript data ''category'') of
        (None, Inr u, Inr c) \<Rightarrow> query (store_graph w) u c
      | _ \<Rightarrow> store_graph w)"
  by (cases "raised s"; cases "subscript data ''user''"; cases "subscript data ''category''")
     (simp_all add: run_defs managed_effect)

lemma main_loop_replicate:
  "value_deserializer decode loads x = Inr data \<Longrightarrow>
   main_loop decode loads (replicate n (x, s)) w = (Listening, (loop_body s data ^^ n) w)"
  by (induction n arbitrary: w) (simp_all add: funpow_swap1)

lemma funpow_query:
  assumes "consistent g"
  shows "((\<lambda>h. query h u c) ^^ Suc n) g = query g u c"
proof (induction n)
  case 0 show ?case by simp
next
  case (Suc n)
  have "((\<lambda>h. query h u c) ^^ Suc (Suc n)) g = query (((\<lambda>h. query h u c) ^^ Suc n) g) u c"
    by simp
  also have "\<dots> = query (query g u c) u c" by (simp only: Suc.IH)
  also have "\<dots> = query g u c" by (rule query_idem [OF assms])
  finally show ?case .
qed

lemma loop_body_committed_graph:
  "subscript data ''user'' = Inr u \<Longrightarrow> subscript data ''category'' = Inr c \<Longrightarrow>
   raised s = None \<Longrightarrow> store_graph (loop_body s data w) = query (store_graph w) u c"
  by (simp add: loop_body_written)

lemma funpow_loop_body_graph:
  assumes "subscript data ''user'' = Inr u" "subscript data ''category'' = Inr c"
    "raised s = None"
  shows "store_graph ((loop_body s data ^^ n) w) = ((\<lambda>h. query h u c) ^^ n) (store_graph w)"
  by (induction n) (simp_all add: loop_body_committed_graph [OF assms])

lemma query_empty:
  "query empty_graph u c =
     \<lparr>nodes = [\<lparr>node_id = 1, node_label = User, node_name = u\<rparr>,
               \<lparr>node_id = 2, node_label = Category, node_name = c\<rparr>],
      rels = [(1, 2)]\<rparr>"
  by (simp add: query_def merge_node_def matching_def fresh_id_def empty_graph_def merge_rel_def)

lemma loop_body_consistent:
  "consistent (store_graph w) \<Longrightarrow> consistent (store_graph (loop_body s data w))"
  by (simp add: loop_body_store_graph query_consistent split: option.splits sum.splits)

lemma main_loop_consistent:
  "consistent (store_graph w) \<Longrightarrow>
   consistent (store_graph (snd (main_loop decode loads ms w)))"
proof (induction ms arbitrary: w)
  case Nil
  then show ?case by simp
next
  case (Cons m ms)
  obtain x s where m: "m = (x, s)" by (cases m)
  show ?case
  proof (cases "value_deserializer decode loads x")
    case (Inl e)
    with Cons.prems show ?thesis by (simp add: m)
  next
    case (Inr data)
    with Cons.prems show ?thesis by (simp add: m Cons.IH loop_body_consistent)
  qed
qed

lemma main_loop_two:
  assumes "value_deserializer decode loads x1 = Inr d1" "value_deserializer decode loads x2 = Inr d2"
  shows "main_loop decode loads [(x1, s1), (x2, s2)] w =
           (Listening, loop_body s2 d2 (loop_body s1 d1 w))"
  by (simp add: assms)

lemma query_empty_two:
  assumes "u1 \<noteq> u2" "c1 \<noteq> c2"
  shows "query (query empty_graph u1 c1) u2 c2 =
     \<lparr>nodes = [\<lparr>node_id = 1, node_label = User, node_name = u1\<rparr>,
               \<lparr>node_id = 2, node_label = Category, node_name = c1\<rparr>,
               \<lparr>node_id = 3, node_label = User, node_name = u2\<rparr>,
               \<lparr>node_id = 4, node_label = Category, node_name = c2\<rparr>],
      rels = [(1, 2), (3, 4)]\<rparr>"
  using assms
  by (simp add: query_empty)
     (simp add: query_def merge_node_def matching_def fresh_id_def merge_rel_def)

lemma query_empty_same_user:
  assumes "c1 \<noteq> c2"
  shows "query (query empty_graph u c1) u c2 =
     \<lparr>nodes = [\<lparr>node_id = 1, node_label = User, node_name = u\<rparr>,
               \<lparr>node_id = 2, node_label = Category, node_name = c1\<rparr>,
               \<lparr>node_id = 3, node_label = Category, node_name = c2\<rparr>],
      rels = [(1, 2), (1, 3)]\<rparr>"
  using assms
  by (simp add: query_empty)
     (simp add: query_def merge_node_def matching_def fresh_id_def merge_rel_def)

lemma posted_in_disjoint:
  "set (matching Category c1 g) \<inter> set (matching Category c2 g) = {} \<Longrightarrow>
   set (posted_in u c1 g) \<inter> set (posted_in u' c2 g) = {}"
  by (auto simp: posted_in_def)

lemma count_list_replicate: "count_list (replicate n x) y = (if x = y then n else 0)"
  by (induction n) auto

lemma raised_prints: "raised s = Some FailsCommit \<Longrightarrow> 0 < prints s"
  by (induction s) (simp_all add: raised_simps prints_simps split: if_splits)

lemma main_loop_append:
  "main_loop decode loads (pre @ rest) w =
     (case main_loop decode loads pre w of
        (Listening, w1) \<Rightarrow> main_loop decode loads rest w1
      | (Terminated e, w1) \<Rightarrow> (Terminated e, w1))"
proof (induction pre arbitrary: w)
  case Nil
  show ?case by simp
next
  case (Cons m pre)
  obtain x s where m: "m = (x, s)" by (cases m)
  show ?case
  proof (cases "value_deserializer decode loads x")
    case (Inl e)
    then show ?thesis by (simp add: m)
  next
    case (Inr data)
    then show ?thesis by (simp add: m Cons.IH)
  qed
qed

lemma loop_body_graph_only:
  "store_graph w1 = store_graph w2 \<Longrightarrow>
   store_graph (loop_body s data w1) = store_graph (loop_body s data w2)"
  by (simp add: loop_body_store_graph split: option.splits sum.splits)

lemmas example_defs = value_deserializer_def example_decode_def example_loads_def
  example_texts_def payload_alice_electronics_def payload_alice_books_def
  payload_bob_books_def payload_no_category_def payload_extra_field_def
  payload_not_strings_def payload_truncated_def

lemma example_alice_electronics:
  "value_deserializer example_decode example_loads payload_alice_electronics =
     Inr (JObj [(''user'', JStr ''alice''), (''category'', JStr ''electronics'')])"
  by (simp add: example_defs)

lemma example_alice_books:
  "value_deserializer example_decode example_loads payload_alice_books =
     Inr (JObj [(''user'', JStr ''alice''), (''category'', JStr ''books'')])"
  by (simp add: example_defs)

lemma example_bob_books:
  "value_deserializer example_decode example_loads payload_bob_books =
     Inr (JObj [(''user'', JStr ''bob''), (''category'', JStr ''books'')])"
  by (simp add: example_defs)

lemma example_no_category:
  "value_deserializer example_decode example_loads payload_no_category =
     Inr (JObj [(''user'', JStr ''alice'')])"
  by (simp add: example_defs)

lemma example_extra_field:
  "value_deserializer example_decode example_loads payload_extra_field =
     Inr (JObj [(''user'', JStr ''alice''), (''category'', JStr ''books''), (''price'', JInt 10)])"
  by (simp add: example_defs)

lemma example_not_strings:
  "value_deserializer example_decode example_loads payload_not_strings =
     Inr (JObj [(''user'', JInt 7), (''category'', JNull)])"
  by (simp add: example_defs)

lemma example_truncated:
  "value_deserializer example_decode example_loads payload_truncated = Inl JSONDecodeError"
  by (simp add: example_defs)

lemma start_consistent: "consistent (store_graph start)"
  by (simp add: start_def empty_consistent)

lemma start_empty: "store_graph start = empty_graph"
  by (simp add: start_def)

section \<open>The claims\<close>

text \<open>
  C1. The same event, with user name \<open>u\<close> and category name \<open>c\<close>, delivered \<open>N\<close> times
  (\<open>N \<ge> 1\<close>) to a store that commits the write, at once as a healthy store does or after
  retries, and whose graph is consistent: the loop is still listening, the graph has
  exactly one User node named \<open>u\<close>, exactly one Category node named \<open>c\<close> and exactly one
  POSTED_IN relationship from the one to the other, it is the graph that a single
  delivery leaves, and it is consistent. Started on the empty graph, that graph has two
  nodes and one relationship.
\<close>

theorem upsert_idempotent:
  assumes "value_deserializer decode loads x = Inr data"
    and "subscript data ''user'' = Inr (JStr u)"
    and "subscript data ''category'' = Inr (JStr c)"
    and "consistent (store_graph w)"
    and "0 < N"
    and "raised s = None"
    and "main_loop decode loads (replicate N (x, s)) w = (st, w')"
  shows "st = Listening
    \<and> length (matching User (JStr u) (store_graph w')) = 1
    \<and> length (matching Category (JStr c) (store_graph w')) = 1
    \<and> length (posted_in (JStr u) (JStr c) (store_graph w')) = 1
    \<and> store_graph w' = store_graph (loop_body s data w)
    \<and> consistent (store_graph w')
    \<and> (store_graph w = empty_graph \<longrightarrow>
          length (nodes (store_graph w')) = 2 \<and> length (rels (store_graph w')) = 1)"
proof -
  from assms(5) obtain n where N: "N = Suc n" by (cases N) auto
  from assms(7) have st: "st = Listening" and w': "w' = (loop_body s data ^^ N) w"
    by (simp_all add: main_loop_replicate [OF assms(1)])
  have g: "store_graph w' = query (store_graph w) (JStr u) (JStr c)"
    unfolding w' N funpow_loop_body_graph [OF assms(2,3,6)] by (rule funpow_query [OF assms(4)])
  have "length (matching User (JStr u) (store_graph w')) = 1"
    unfolding g by (rule query_user_one [OF assms(4)])
  moreover have "length (matching Category (JStr c) (store_graph w')) = 1"
    unfolding g by (rule query_category_one [OF assms(4)])
  moreover have "length (posted_in (JStr u) (JStr c) (store_graph w')) = 1"
    unfolding g by (rule query_posted_same [OF assms(4)])
  moreover have "store_graph w' = store_graph (loop_body s data w)"
    by (simp add: g loop_body_committed_graph [OF assms(2,3,6)])
  moreover have "consistent (store_graph w')"
    unfolding g by (rule query_consistent [OF assms(4)])
  moreover have "store_graph w = empty_graph \<longrightarrow>
      length (nodes (store_graph w')) = 2 \<and> length (rels (store_graph w')) = 1"
    by (simp add: g query_empty)
  ultimately show ?thesis using st by simp
qed

text \<open>The example of the specification: the event of alice and electronics, twice.\<close>

theorem upsert_idempotent_witness:
  "fst (main_loop example_decode example_loads
          (replicate 2 (payload_alice_electronics, Healthy)) start) = Listening
   \<and> length (matching User (JStr ''alice'') (store_graph (snd (main_loop example_decode
          example_loads (replicate 2 (payload_alice_electronics, Healthy)) start)))) = 1
   \<and> length (matching Category (JStr ''electronics'') (store_graph (snd (main_loop example_decode
          example_loads (replicate 2 (payload_alice_electronics, Healthy)) start)))) = 1
   \<and> length (posted_in (JStr ''alice'') (JStr ''electronics'') (store_graph (snd (main_loop
          example_decode example_loads (replicate 2 (payload_alice_electronics, Healthy)) start)))) = 1
   \<and> length (nodes (store_graph (snd (main_loop example_decode example_loads
          (replicate 2 (payload_alice_electronics, Healthy)) start)))) = 2
   \<and> length (rels (store_graph (snd (main_loop example_decode example_loads
          (replicate 2 (payload_alice_electronics, Healthy)) start)))) = 1"
proof -
  let ?d = "JObj [(''user'', JStr ''alice''), (''category'', JStr ''electronics'')]"
  have u: "subscript ?d ''user'' = Inr (JStr ''alice'')" by simp
  have c: "subscript ?d ''category'' = Inr (JStr ''electronics'')" by simp
  have n: "0 < (2::nat)" by simp
  have s: "raised Healthy = None" by (simp add: raised_simps)
  obtain st w' where r: "main_loop example_decode example_loads
      (replicate 2 (payload_alice_electronics, Healthy)) start = (st, w')"
    by (cases "main_loop example_decode example_loads
      (replicate 2 (payload_alice_electronics, Healthy)) start")
  show ?thesis
    unfolding r fst_conv snd_conv
    using upsert_idempotent [OF example_alice_electronics u c start_consistent n s r] start_empty
    by blast
qed

text \<open>
  C2, as the code has it. A payload that the deserializer refuses (malformed JSON, or
  bytes that are not UTF-8) raises where the consumer yields the message, outside the
  \<^verbatim>\<open>try\<close>. After the messages before it have been processed the loop ends with that
  exception: nothing is printed, called or written for the message, it is not retried,
  and no later message is processed.
\<close>

theorem decode_failure_ends_loop:
  assumes "value_deserializer decode loads x = Inl e"
    and "main_loop decode loads pre w = (Listening, w1)"
  shows "main_loop decode loads (pre @ (x, s) # ms) w = (Terminated e, w1)"
  by (simp add: main_loop_append assms)

text \<open>One event, then a truncated object, then another event: the loop ends at the second.\<close>

theorem decode_failure_ends_loop_witness:
  "main_loop example_decode example_loads
     ([(payload_alice_electronics, Healthy)] @
      (payload_truncated, Healthy) # [(payload_bob_books, Healthy)]) start =
   (Terminated JSONDecodeError,
    loop_body Healthy (JObj [(''user'', JStr ''alice''), (''category'', JStr ''electronics'')]) start)"
proof -
  have p: "main_loop example_decode example_loads [(payload_alice_electronics, Healthy)] start =
    (Listening,
     loop_body Healthy (JObj [(''user'', JStr ''alice''), (''category'', JStr ''electronics'')]) start)"
    by (simp add: example_alice_electronics)
  show ?thesis by (rule decode_failure_ends_loop [OF example_truncated p])
qed

text \<open>
  C2 as stated, that the loop continues with the next message, fails: a truncated object
  followed by a well-formed event ends the loop, and the event is never written.
\<close>

theorem decode_failure_not_skipped:
  "value_deserializer example_decode example_loads payload_truncated = Inl JSONDecodeError
   \<and> main_loop example_decode example_loads
       [(payload_truncated, Healthy), (payload_alice_electronics, Healthy)] start \<noteq>
     main_loop example_decode example_loads [(payload_alice_electronics, Healthy)] start
   \<and> fst (main_loop example_decode example_loads
       [(payload_truncated, Healthy), (payload_alice_electronics, Healthy)] start) \<noteq> Listening
   \<and> calls (snd (main_loop example_decode example_loads
       [(payload_truncated, Healthy), (payload_alice_electronics, Healthy)] start)) = []"
  by (simp add: example_truncated example_alice_electronics start_def)

text \<open>
  C3. An event whose object lacks the key \<^verbatim>\<open>user\<close> or the key \<^verbatim>\<open>category\<close>, whatever the
  store would answer: the KeyError is raised while the arguments of the call are
  evaluated, so the session is opened and closed and no transaction is begun; the graph
  is unchanged, the error is printed, and the loop goes on with the next message.
\<close>

theorem missing_key_skipped:
  assumes "value_deserializer decode loads x = Inr (JObj kvs)"
    and "map_of kvs ''user'' = None \<or> map_of kvs ''category'' = None"
  shows "main_loop decode loads ((x, s) # ms) w =
           main_loop decode loads ms (loop_body s (JObj kvs) w)
    \<and> store_graph (loop_body s (JObj kvs) w) = store_graph w
    \<and> calls (loop_body s (JObj kvs) w) = calls w @ [SessionOpen, SessionClose]
    \<and> stdout (loop_body s (JObj kvs) w) =
        stdout w @ [Received (JObj kvs),
          Neo4jErrorLine (KeyError (if map_of kvs ''user'' = None then ''user'' else ''category''))]"
proof -
  let ?k = "if map_of kvs ''user'' = None then ''user'' else ''category''"
  have "subscript (JObj kvs) ''user'' = Inl (KeyError ?k) \<or>
      (\<exists>u. subscript (JObj kvs) ''user'' = Inr u) \<and>
      subscript (JObj kvs) ''category'' = Inl (KeyError ?k)"
    using assms(2) by (cases "map_of kvs ''user''") auto
  then have "loop_body s (JObj kvs) w =
      w\<lparr>stdout := stdout w @ [Received (JObj kvs), Neo4jErrorLine (KeyError ?k)],
        calls := calls w @ [SessionOpen, SessionClose]\<rparr>"
    by (rule loop_body_raised)
  then show ?thesis by (simp add: assms(1))
qed

text \<open>An event with no category, then the event of alice and electronics.\<close>

theorem missing_key_skipped_witness:
  "main_loop example_decode example_loads
     [(payload_no_category, Healthy), (payload_alice_electronics, Healthy)] start =
   main_loop example_decode example_loads [(payload_alice_electronics, Healthy)]
     (loop_body Healthy (JObj [(''user'', JStr ''alice'')]) start)
   \<and> store_graph (loop_body Healthy (JObj [(''user'', JStr ''alice'')]) start) = empty_graph
   \<and> calls (loop_body Healthy (JObj [(''user'', JStr ''alice'')]) start) =
       [SessionOpen, SessionClose]
   \<and> stdout (loop_body Healthy (JObj [(''user'', JStr ''alice'')]) start) =
       [Received (JObj [(''user'', JStr ''alice'')]), Neo4jErrorLine (KeyError ''category'')]"
proof -
  have k: "map_of [(''user'', JStr ''alice'')] ''user'' = None \<or>
      map_of [(''user'', JStr ''alice'')] ''category'' = None" by simp
  from missing_key_skipped [OF example_no_category k, of Healthy
      "[(payload_alice_electronics, Healthy)]" start]
  show ?thesis by (simp add: start_def)
qed

text \<open>
  C4. An event with both keys whose write raises, at the begin of a transaction, in
  \<^verbatim>\<open>tx.run\<close> or at the commit, at the first attempt or after retries of the driver: the
  error is caught and is the last line printed for the message, the graph is unchanged,
  \<^verbatim>\<open>write_transaction\<close> has been called once for the message, the loop goes on with the
  next message, and whatever message comes next leaves the graph it would have left had
  the failed message never been delivered.
\<close>

theorem write_failure_isolated:
  assumes "value_deserializer decode loads x = Inr data"
    and "subscript data ''user'' = Inr u"
    and "subscript data ''category'' = Inr c"
    and "raised s = Some f"
  shows "main_loop decode loads ((x, s) # ms) w = main_loop decode loads ms (loop_body s data w)
    \<and> store_graph (loop_body s data w) = store_graph w
    \<and> last (stdout (loop_body s data w)) = Neo4jErrorLine (Neo4jError f)
    \<and> count_list (calls (loop_body s data w)) (WriteTransaction u c) =
        Suc (count_list (calls w) (WriteTransaction u c))
    \<and> store_graph (loop_body s' data' (loop_body s data w)) = store_graph (loop_body s' data' w)"
proof -
  have g: "store_graph (loop_body s data w) = store_graph w"
    using assms(4) by (simp add: loop_body_written [OF assms(2,3)])
  have "last (stdout (loop_body s data w)) = Neo4jErrorLine (Neo4jError f)"
    using assms(4) by (simp add: loop_body_written [OF assms(2,3)])
  moreover have "count_list (calls (loop_body s data w)) (WriteTransaction u c) =
      Suc (count_list (calls w) (WriteTransaction u c))"
    by (simp add: loop_body_written [OF assms(2,3)] count_list_replicate)
  moreover have "store_graph (loop_body s' data' (loop_body s data w)) =
      store_graph (loop_body s' data' w)"
    by (rule loop_body_graph_only [OF g])
  ultimately show ?thesis using g by (simp add: assms(1))
qed

text \<open>
  The store cannot be reached for the first event, at the first attempt and at the
  retry, and is healthy for the second event.
\<close>

theorem write_failure_isolated_witness:
  "main_loop example_decode example_loads
     [(payload_alice_electronics, Retry Unreachable (Fails Unreachable)),
      (payload_bob_books, Healthy)] start =
   main_loop example_decode example_loads [(payload_bob_books, Healthy)]
     (loop_body (Retry Unreachable (Fails Unreachable))
        (JObj [(''user'', JStr ''alice''), (''category'', JStr ''electronics'')]) start)
   \<and> store_graph (loop_body (Retry Unreachable (Fails Unreachable))
        (JObj [(''user'', JStr ''alice''), (''category'', JStr ''electronics'')]) start) = empty_graph
   \<and> last (stdout (loop_body (Retry Unreachable (Fails Unreachable))
        (JObj [(''user'', JStr ''alice''), (''category'', JStr ''electronics'')]) start)) =
       Neo4jErrorLine (Neo4jError Unreachable)
   \<and> count_list (calls (loop_body (Retry Unreachable (Fails Unreachable))
        (JObj [(''user'', JStr ''alice''), (''category'', JStr ''electronics'')]) start))
        (WriteTransaction (JStr ''alice'') (JStr ''electronics'')) = 1
   \<and> store_graph (loop_body Healthy (JObj [(''user'', JStr ''bob''), (''category'', JStr ''books'')])
        (loop_body (Retry Unreachable (Fails Unreachable))
           (JObj [(''user'', JStr ''alice''), (''category'', JStr ''electronics'')]) start)) =
       store_graph (loop_body Healthy
         (JObj [(''user'', JStr ''bob''), (''category'', JStr ''books'')]) start)"
proof -
  let ?d = "JObj [(''user'', JStr ''alice''), (''category'', JStr ''electronics'')]"
  have u: "subscript ?d ''user'' = Inr (JStr ''alice'')" by simp
  have c: "subscript ?d ''category'' = Inr (JStr ''electronics'')" by simp
  have s: "raised (Retry Unreachable (Fails Unreachable)) = Some Unreachable"
    by (simp add: raised_simps)
  have e: "store_graph start = empty_graph" "calls start = []" by (simp_all add: start_def)
  from write_failure_isolated [OF example_alice_electronics u c s,
      of "[(payload_bob_books, Healthy)]" start Healthy
         "JObj [(''user'', JStr ''bob''), (''category'', JStr ''books'')]"]
  show ?thesis by (simp only: e count_list.simps One_nat_def)
qed

text \<open>
  C5. An event \<open>(u1, c1)\<close> and an event \<open>(u2, c2)\<close> with \<open>u1 \<noteq> u2\<close> and \<open>c1 \<noteq> c2\<close>,
  delivered to a store that commits both writes (at once or after retries) and whose
  graph is consistent: the graph stays consistent, each of the four names has
  exactly one node, the two User nodes differ and the two Category nodes differ, there is
  exactly one relationship \<open>u1 \<rightarrow> c1\<close> and exactly one \<open>u2 \<rightarrow> c2\<close>, and the relationships
  \<open>u1 \<rightarrow> c2\<close> and \<open>u2 \<rightarrow> c1\<close> are those of the graph before: none is created. Started on
  the empty graph, the graph has four nodes and two relationships, and no relationship
  between \<open>u1\<close> and \<open>c2\<close> or between \<open>u2\<close> and \<open>c1\<close>.
\<close>

theorem distinct_events_isolated:
  assumes "value_deserializer decode loads x1 = Inr d1"
    and "value_deserializer decode loads x2 = Inr d2"
    and "subscript d1 ''user'' = Inr (JStr u1)"
    and "subscript d1 ''category'' = Inr (JStr c1)"
    and "subscript d2 ''user'' = Inr (JStr u2)"
    and "subscript d2 ''category'' = Inr (JStr c2)"
    and "u1 \<noteq> u2"
    and "c1 \<noteq> c2"
    and "consistent (store_graph w)"
    and "raised s1 = None"
    and "raised s2 = None"
    and "main_loop decode loads [(x1, s1), (x2, s2)] w = (st, w')"
  shows "st = Listening
    \<and> consistent (store_graph w')
    \<and> length (matching User (JStr u1) (store_graph w')) = 1
    \<and> length (matching User (JStr u2) (store_graph w')) = 1
    \<and> set (matching User (JStr u1) (store_graph w')) \<inter>
        set (matching User (JStr u2) (store_graph w')) = {}
    \<and> length (matching Category (JStr c1) (store_graph w')) = 1
    \<and> length (matching Category (JStr c2) (store_graph w')) = 1
    \<and> set (matching Category (JStr c1) (store_graph w')) \<inter>
        set (matching Category (JStr c2) (store_graph w')) = {}
    \<and> length (posted_in (JStr u1) (JStr c1) (store_graph w')) = 1
    \<and> length (posted_in (JStr u2) (JStr c2) (store_graph w')) = 1
    \<and> posted_in (JStr u1) (JStr c2) (store_graph w') = posted_in (JStr u1) (JStr c2) (store_graph w)
    \<and> posted_in (JStr u2) (JStr c1) (store_graph w') = posted_in (JStr u2) (JStr c1) (store_graph w)
    \<and> (store_graph w = empty_graph \<longrightarrow>
          length (nodes (store_graph w')) = 4 \<and> length (rels (store_graph w')) = 2 \<and>
          posted_in (JStr u1) (JStr c2) (store_graph w') = [] \<and>
          posted_in (JStr u2) (JStr c1) (store_graph w') = [])"
proof -
  let ?g0 = "store_graph w"
  let ?g1 = "query ?g0 (JStr u1) (JStr c1)"
  let ?g2 = "query ?g1 (JStr u2) (JStr c2)"
  from assms(12) [unfolded main_loop_two [OF assms(1,2)]]
  have st: "st = Listening" and w': "w' = loop_body s2 d2 (loop_body s1 d1 w)"
    by simp_all
  have g1: "store_graph (loop_body s1 d1 w) = ?g1"
    by (rule loop_body_committed_graph [OF assms(3,4,10)])
  have g2: "store_graph w' = ?g2"
    unfolding w' by (simp add: loop_body_committed_graph [OF assms(5,6,11)] g1)
  have k0: "consistent ?g0" by (rule assms(9))
  have k1: "consistent ?g1" by (rule query_consistent [OF k0])
  have k2: "consistent ?g2" by (rule query_consistent [OF k1])
  then have ids: "distinct (node_ids ?g2)" by (simp add: consistent_def)
  have user1: "length (matching User (JStr u1) ?g2) = 1"
  proof -
    have 1: "length (matching User (JStr u1) ?g1) = 1" by (rule query_user_one [OF k0])
    then have "matching User (JStr u1) ?g1 \<noteq> []" by auto
    then have "matching User (JStr u1) ?g2 = matching User (JStr u1) ?g1"
      using k1 by (simp add: query_keeps)
    with 1 show ?thesis by simp
  qed
  have user2: "length (matching User (JStr u2) ?g2) = 1" by (rule query_user_one [OF k1])
  have users: "set (matching User (JStr u1) ?g2) \<inter> set (matching User (JStr u2) ?g2) = {}"
    using ids assms(7) by (simp add: matching_disjoint)
  have cat1: "length (matching Category (JStr c1) ?g2) = 1"
  proof -
    have 1: "length (matching Category (JStr c1) ?g1) = 1" by (rule query_category_one [OF k0])
    then have "matching Category (JStr c1) ?g1 \<noteq> []" by auto
    then have "matching Category (JStr c1) ?g2 = matching Category (JStr c1) ?g1"
      using k1 by (simp add: query_keeps)
    with 1 show ?thesis by simp
  qed
  have cat2: "length (matching Category (JStr c2) ?g2) = 1" by (rule query_category_one [OF k1])
  have cats: "set (matching Category (JStr c1) ?g2) \<inter> set (matching Category (JStr c2) ?g2) = {}"
    using ids assms(8) by (simp add: matching_disjoint)
  have rel1: "length (posted_in (JStr u1) (JStr c1) ?g2) = 1"
  proof -
    have "posted_in (JStr u1) (JStr c1) ?g2 = posted_in (JStr u1) (JStr c1) ?g1"
      using k1 assms(7) by (simp add: query_posted_other)
    then show ?thesis by (simp add: query_posted_same [OF k0])
  qed
  have rel2: "length (posted_in (JStr u2) (JStr c2) ?g2) = 1" by (rule query_posted_same [OF k1])
  have cross1: "posted_in (JStr u1) (JStr c2) ?g2 = posted_in (JStr u1) (JStr c2) ?g0"
    using k0 k1 assms(7,8) by (simp add: query_posted_other)
  have cross2: "posted_in (JStr u2) (JStr c1) ?g2 = posted_in (JStr u2) (JStr c1) ?g0"
    using k0 k1 assms(7,8) by (simp add: query_posted_other)
  have fresh: "?g0 = empty_graph \<longrightarrow>
      length (nodes ?g2) = 4 \<and> length (rels ?g2) = 2 \<and>
      posted_in (JStr u1) (JStr c2) ?g2 = [] \<and> posted_in (JStr u2) (JStr c1) ?g2 = []"
  proof
    assume e: "?g0 = empty_graph"
    have "posted_in (JStr u1) (JStr c2) empty_graph = []" "posted_in (JStr u2) (JStr c1) empty_graph = []"
      by (simp_all add: posted_in_def empty_graph_def)
    with cross1 cross2 e have "posted_in (JStr u1) (JStr c2) ?g2 = []"
      "posted_in (JStr u2) (JStr c1) ?g2 = []" by simp_all
    moreover have "length (nodes ?g2) = 4 \<and> length (rels ?g2) = 2"
      using assms(7,8) by (simp add: e query_empty_two)
    ultimately show "length (nodes ?g2) = 4 \<and> length (rels ?g2) = 2 \<and>
      posted_in (JStr u1) (JStr c2) ?g2 = [] \<and> posted_in (JStr u2) (JStr c1) ?g2 = []" by simp
  qed
  show ?thesis
    unfolding g2 using st k2 user1 user2 users cat1 cat2 cats rel1 rel2 cross1 cross2 fresh
    by blast
qed

text \<open>Alice in electronics and Bob in books, on the empty graph.\<close>

theorem distinct_events_isolated_witness:
  "fst (main_loop example_decode example_loads
          [(payload_alice_electronics, Healthy), (payload_bob_books, Healthy)] start) = Listening
   \<and> length (matching User (JStr ''alice'') (store_graph (snd (main_loop example_decode example_loads
          [(payload_alice_electronics, Healthy), (payload_bob_books, Healthy)] start)))) = 1
   \<and> length (matching User (JStr ''bob'') (store_graph (snd (main_loop example_decode example_loads
          [(payload_alice_electronics, Healthy), (payload_bob_books, Healthy)] start)))) = 1
   \<and> length (nodes (store_graph (snd (main_loop example_decode example_loads
          [(payload_alice_electronics, Healthy), (payload_bob_books, Healthy)] start)))) = 4
   \<and> length (rels (store_graph (snd (main_loop example_decode example_loads
          [(payload_alice_electronics, Healthy), (payload_bob_books, Healthy)] start)))) = 2
   \<and> posted_in (JStr ''alice'') (JStr ''books'') (store_graph (snd (main_loop example_decode
          example_loads [(payload_alice_electronics, Healthy), (payload_bob_books, Healthy)] start))) = []
   \<and> posted_in (JStr ''bob'') (JStr ''electronics'') (store_graph (snd (main_loop example_decode
          example_loads [(payload_alice_electronics, Healthy), (payload_bob_books, Healthy)] start))) = []"
proof -
  let ?d1 = "JObj [(''user'', JStr ''alice''), (''category'', JStr ''electronics'')]"
  let ?d2 = "JObj [(''user'', JStr ''bob''), (''category'', JStr ''books'')]"
  have u1: "subscript ?d1 ''user'' = Inr (JStr ''alice'')" by simp
  have c1: "subscript ?d1 ''category'' = Inr (JStr ''electronics'')" by simp
  have u2: "subscript ?d2 ''user'' = Inr (JStr ''bob'')" by simp
  have c2: "subscript ?d2 ''category'' = Inr (JStr ''books'')" by simp
  have u: "''alice'' \<noteq> ''bob''" by simp
  have c: "''electronics'' \<noteq> ''books''" by simp
  have s: "raised Healthy = None" by (simp add: raised_simps)
  obtain st w' where r: "main_loop example_decode example_loads
      [(payload_alice_electronics, Healthy), (payload_bob_books, Healthy)] start = (st, w')"
    by (cases "main_loop example_decode example_loads
      [(payload_alice_electronics, Healthy), (payload_bob_books, Healthy)] start")
  show ?thesis
    unfolding r fst_conv snd_conv
    using distinct_events_isolated
      [OF example_alice_electronics example_bob_books u1 c1 u2 c2 u c start_consistent s s r]
      start_empty
    by blast
qed

text \<open>
  C6. Two events of one user \<open>u\<close> with distinct categories \<open>c1\<close> and then \<open>c2\<close>,
  delivered in this order to a store that commits both writes (at once or after retries)
  and whose graph is consistent: afterwards the graph is consistent, there is one User
  node \<open>u\<close>, one Category node for each of \<open>c1\<close> and \<open>c2\<close>, and the two are different
  nodes; there is one POSTED_IN relationship from \<open>u\<close> to each, and the two are different
  relationships; the relationship to \<open>c1\<close> is the one the first write left, so the second
  write neither removes it nor is lost. Started on the empty graph, the graph has three
  nodes and two relationships.
\<close>

theorem same_user_two_categories:
  assumes "value_deserializer decode loads x1 = Inr d1"
    and "value_deserializer decode loads x2 = Inr d2"
    and "subscript d1 ''user'' = Inr (JStr u)"
    and "subscript d1 ''category'' = Inr (JStr c1)"
    and "subscript d2 ''user'' = Inr (JStr u)"
    and "subscript d2 ''category'' = Inr (JStr c2)"
    and "c1 \<noteq> c2"
    and "consistent (store_graph w)"
    and "raised s1 = None"
    and "raised s2 = None"
    and "main_loop decode loads [(x1, s1), (x2, s2)] w = (st, w')"
  shows "st = Listening
    \<and> length (matching User (JStr u) (store_graph w')) = 1
    \<and> length (matching Category (JStr c1) (store_graph w')) = 1
    \<and> length (matching Category (JStr c2) (store_graph w')) = 1
    \<and> length (posted_in (JStr u) (JStr c1) (store_graph w')) = 1
    \<and> length (posted_in (JStr u) (JStr c2) (store_graph w')) = 1
    \<and> posted_in (JStr u) (JStr c1) (store_graph w') =
        posted_in (JStr u) (JStr c1) (store_graph (loop_body s1 d1 w))
    \<and> set (matching Category (JStr c1) (store_graph w')) \<inter>
        set (matching Category (JStr c2) (store_graph w')) = {}
    \<and> set (posted_in (JStr u) (JStr c1) (store_graph w')) \<inter>
        set (posted_in (JStr u) (JStr c2) (store_graph w')) = {}
    \<and> consistent (store_graph w')
    \<and> (store_graph w = empty_graph \<longrightarrow>
          length (nodes (store_graph w')) = 3 \<and> length (rels (store_graph w')) = 2)"
proof -
  let ?g1 = "query (store_graph w) (JStr u) (JStr c1)"
  let ?g2 = "query ?g1 (JStr u) (JStr c2)"
  from assms(11) [unfolded main_loop_two [OF assms(1,2)]]
  have st: "st = Listening" and w': "w' = loop_body s2 d2 (loop_body s1 d1 w)"
    by simp_all
  have g1: "store_graph (loop_body s1 d1 w) = ?g1"
    by (rule loop_body_committed_graph [OF assms(3,4,9)])
  have g2: "store_graph w' = ?g2"
    unfolding w' by (simp add: loop_body_committed_graph [OF assms(5,6,10)] g1)
  have k1: "consistent ?g1" by (rule query_consistent [OF assms(8)])
  have k2: "consistent ?g2" by (rule query_consistent [OF k1])
  then have ids: "distinct (node_ids ?g2)" by (simp add: consistent_def)
  have user: "length (matching User (JStr u) ?g2) = 1" by (rule query_user_one [OF k1])
  have cat2: "length (matching Category (JStr c2) ?g2) = 1" by (rule query_category_one [OF k1])
  have cat1: "length (matching Category (JStr c1) ?g2) = 1"
  proof -
    have 1: "length (matching Category (JStr c1) ?g1) = 1" by (rule query_category_one [OF assms(8)])
    then have "matching Category (JStr c1) ?g1 \<noteq> []" by auto
    then have "matching Category (JStr c1) ?g2 = matching Category (JStr c1) ?g1"
      using k1 by (simp add: query_keeps)
    with 1 show ?thesis by simp
  qed
  have keep: "posted_in (JStr u) (JStr c1) ?g2 = posted_in (JStr u) (JStr c1) ?g1"
    using k1 assms(7) by (simp add: query_posted_other)
  have rel1: "length (posted_in (JStr u) (JStr c1) ?g2) = 1"
    unfolding keep by (rule query_posted_same [OF assms(8)])
  have rel2: "length (posted_in (JStr u) (JStr c2) ?g2) = 1"
    by (rule query_posted_same [OF k1])
  have cats: "set (matching Category (JStr c1) ?g2) \<inter> set (matching Category (JStr c2) ?g2) = {}"
    using ids assms(7) by (simp add: matching_disjoint)
  have rels: "set (posted_in (JStr u) (JStr c1) ?g2) \<inter> set (posted_in (JStr u) (JStr c2) ?g2) = {}"
    by (rule posted_in_disjoint [OF cats])
  have fresh: "store_graph w = empty_graph \<longrightarrow> length (nodes ?g2) = 3 \<and> length (rels ?g2) = 2"
    using assms(7) by (simp add: query_empty_same_user)
  show ?thesis
    unfolding g2 g1 using st user cat1 cat2 rel1 rel2 keep cats rels k2 fresh by blast
qed

text \<open>Alice in electronics and then in books, on the empty graph.\<close>

theorem same_user_two_categories_witness:
  "fst (main_loop example_decode example_loads
          [(payload_alice_electronics, Healthy), (payload_alice_books, Healthy)] start) = Listening
   \<and> length (matching User (JStr ''alice'') (store_graph (snd (main_loop example_decode example_loads
          [(payload_alice_electronics, Healthy), (payload_alice_books, Healthy)] start)))) = 1
   \<and> length (matching Category (JStr ''electronics'') (store_graph (snd (main_loop example_decode
          example_loads [(payload_alice_electronics, Healthy), (payload_alice_books, Healthy)] start)))) = 1
   \<and> length (matching Category (JStr ''books'') (store_graph (snd (main_loop example_decode
          example_loads [(payload_alice_electronics, Healthy), (payload_alice_books, Healthy)] start)))) = 1
   \<and> length (posted_in (JStr ''alice'') (JStr ''electronics'') (store_graph (snd (main_loop
          example_decode example_loads
          [(payload_alice_electronics, Healthy), (payload_alice_books, Healthy)] start)))) = 1
   \<and> length (posted_in (JStr ''alice'') (JStr ''books'') (store_graph (snd (main_loop
          example_decode example_loads
          [(payload_alice_electronics, Healthy), (payload_alice_books, Healthy)] start)))) = 1
   \<and> set (posted_in (JStr ''alice'') (JStr ''electronics'') (store_graph (snd (main_loop
          example_decode example_loads
          [(payload_alice_electronics, Healthy), (payload_alice_books, Healthy)] start)))) \<inter>
      set (posted_in (JStr ''alice'') (JStr ''books'') (store_graph (snd (main_loop
          example_decode example_loads
          [(payload_alice_electronics, Healthy), (payload_alice_books, Healthy)] start)))) = {}
   \<and> length (nodes (store_graph (snd (main_loop example_decode example_loads
          [(payload_alice_electronics, Healthy), (payload_alice_books, Healthy)] start)))) = 3
   \<and> length (rels (store_graph (snd (main_loop example_decode example_loads
          [(payload_alice_electronics, Healthy), (payload_alice_books, Healthy)] start)))) = 2"
proof -
  let ?d1 = "JObj [(''user'', JStr ''alice''), (''category'', JStr ''electronics'')]"
  let ?d2 = "JObj [(''user'', JStr ''alice''), (''category'', JStr ''books'')]"
  have u1: "subscript ?d1 ''user'' = Inr (JStr ''alice'')" by simp
  have c1: "subscript ?d1 ''category'' = Inr (JStr ''electronics'')" by simp
  have u2: "subscript ?d2 ''user'' = Inr (JStr ''alice'')" by simp
  have c2: "subscript ?d2 ''category'' = Inr (JStr ''books'')" by simp
  have c: "''electronics'' \<noteq> ''books''" by simp
  have s: "raised Healthy = None" by (simp add: raised_simps)
  obtain st w' where r: "main_loop example_decode example_loads
      [(payload_alice_electronics, Healthy), (payload_alice_books, Healthy)] start = (st, w')"
    by (cases "main_loop example_decode example_loads
      [(payload_alice_electronics, Healthy), (payload_alice_books, Healthy)] start")
  show ?thesis
    unfolding r fst_conv snd_conv
    using same_user_two_categories
      [OF example_alice_electronics example_alice_books u1 c1 u2 c2 c start_consistent s s r]
      start_empty
    by blast
qed

text \<open>
  C7. Two events whose objects agree on \<^verbatim>\<open>user\<close> and on \<^verbatim>\<open>category\<close> and differ in any
  other field: under the same answer of the store they leave the same graph and make the
  same calls to the driver, with the same arguments.
\<close>

theorem extra_fields_ignored:
  assumes "map_of kvs1 ''user'' = map_of kvs2 ''user''"
    and "map_of kvs1 ''category'' = map_of kvs2 ''category''"
  shows "store_graph (loop_body s (JObj kvs1) w) = store_graph (loop_body s (JObj kvs2) w)
    \<and> calls (loop_body s (JObj kvs1) w) = calls (loop_body s (JObj kvs2) w)"
proof -
  have u: "subscript (JObj kvs1) ''user'' = subscript (JObj kvs2) ''user''"
    by (simp add: assms(1) split: option.splits)
  have c: "subscript (JObj kvs1) ''category'' = subscript (JObj kvs2) ''category''"
    by (simp add: assms(2) split: option.splits)
  show ?thesis
  proof (cases "subscript (JObj kvs2) ''user''")
    case (Inl e)
    with u show ?thesis by (simp add: loop_body_raised)
  next
    case user: (Inr user)
    show ?thesis
    proof (cases "subscript (JObj kvs2) ''category''")
      case (Inl e)
      with u c user have
        "subscript (JObj kvs1) ''user'' = Inl e \<or>
          (\<exists>v. subscript (JObj kvs1) ''user'' = Inr v) \<and> subscript (JObj kvs1) ''category'' = Inl e"
        "subscript (JObj kvs2) ''user'' = Inl e \<or>
          (\<exists>v. subscript (JObj kvs2) ''user'' = Inr v) \<and> subscript (JObj kvs2) ''category'' = Inl e"
        by simp_all
      then show ?thesis by (simp only: loop_body_raised) simp
    next
      case (Inr category)
      with u c user show ?thesis by (simp add: loop_body_written)
    qed
  qed
qed

text \<open>The event of alice and books, with and without a price.\<close>

theorem extra_fields_ignored_witness:
  "store_graph (snd (main_loop example_decode example_loads
      [(payload_extra_field, Healthy)] start)) =
   store_graph (snd (main_loop example_decode example_loads
      [(payload_alice_books, Healthy)] start))
   \<and> calls (snd (main_loop example_decode example_loads
      [(payload_extra_field, Healthy)] start)) =
     calls (snd (main_loop example_decode example_loads
      [(payload_alice_books, Healthy)] start))"
proof -
  have u: "map_of [(''user'', JStr ''alice''), (''category'', JStr ''books''), (''price'', JInt 10)]
      ''user'' = map_of [(''user'', JStr ''alice''), (''category'', JStr ''books'')] ''user''"
    by simp
  have c: "map_of [(''user'', JStr ''alice''), (''category'', JStr ''books''), (''price'', JInt 10)]
      ''category'' = map_of [(''user'', JStr ''alice''), (''category'', JStr ''books'')] ''category''"
    by simp
  from extra_fields_ignored [OF u c, of Healthy start]
  show ?thesis by (simp add: example_extra_field example_alice_books)
qed

text \<open>
  C8, as the code has it. An event with both keys, whatever the store answers: the loop
  opens a session, calls \<^verbatim>\<open>write_transaction\<close> once with the two values, and closes the
  session last, after a commit as after an exception. Within that one call the driver
  runs the transaction function, and so the query, once for every attempt that begins a
  transaction: again after each retryable error. The graph is the one the query leaves
  when the call returns, and the graph before when it raises.
\<close>

theorem session_scoped:
  assumes "subscript data ''user'' = Inr u"
    and "subscript data ''category'' = Inr c"
  shows "calls (loop_body s data w) =
       calls w @ [SessionOpen, WriteTransaction u c] @
         replicate (runs s) (TxRun u c) @ [SessionClose]
    \<and> count_list (calls (loop_body s data w)) (WriteTransaction u c) =
        Suc (count_list (calls w) (WriteTransaction u c))
    \<and> count_list (calls (loop_body s data w)) SessionOpen = Suc (count_list (calls w) SessionOpen)
    \<and> count_list (calls (loop_body s data w)) SessionClose =
        Suc (count_list (calls w) SessionClose)
    \<and> last (calls (loop_body s data w)) = SessionClose
    \<and> (raised s = None \<longrightarrow> store_graph (loop_body s data w) = query (store_graph w) u c)
    \<and> (raised s \<noteq> None \<longrightarrow> store_graph (loop_body s data w) = store_graph w)"
  by (simp add: loop_body_written [OF assms] count_list_replicate)

text \<open>
  A commit that fails for good, an unreachable store, a healthy one, and a store whose
  first attempt fails in \<^verbatim>\<open>tx.run\<close> with a retryable error and whose second commits.
\<close>

theorem session_scoped_witness:
  "calls (loop_body (Fails FailsCommit)
      (JObj [(''user'', JStr ''alice''), (''category'', JStr ''electronics'')]) start) =
     [SessionOpen, WriteTransaction (JStr ''alice'') (JStr ''electronics''),
      TxRun (JStr ''alice'') (JStr ''electronics''), SessionClose]
   \<and> calls (loop_body (Fails Unreachable)
      (JObj [(''user'', JStr ''alice''), (''category'', JStr ''electronics'')]) start) =
     [SessionOpen, WriteTransaction (JStr ''alice'') (JStr ''electronics''), SessionClose]
   \<and> store_graph (loop_body Healthy
      (JObj [(''user'', JStr ''alice''), (''category'', JStr ''electronics'')]) start) =
     query empty_graph (JStr ''alice'') (JStr ''electronics'')
   \<and> calls (loop_body (Retry RejectsQuery Healthy)
      (JObj [(''user'', JStr ''alice''), (''category'', JStr ''electronics'')]) start) =
     [SessionOpen, WriteTransaction (JStr ''alice'') (JStr ''electronics''),
      TxRun (JStr ''alice'') (JStr ''electronics''),
      TxRun (JStr ''alice'') (JStr ''electronics''), SessionClose]"
proof -
  let ?d = "JObj [(''user'', JStr ''alice''), (''category'', JStr ''electronics'')]"
  have u: "subscript ?d ''user'' = Inr (JStr ''alice'')" by simp
  have c: "subscript ?d ''category'' = Inr (JStr ''electronics'')" by simp
  have e: "store_graph start = empty_graph" "calls start = []" by (simp_all add: start_def)
  have two: "replicate 2 (TxRun (JStr ''alice'') (JStr ''electronics'')) =
      [TxRun (JStr ''alice'') (JStr ''electronics''), TxRun (JStr ''alice'') (JStr ''electronics'')]"
    by (simp add: numeral_2_eq_2)
  from session_scoped [OF u c, of "Fails FailsCommit" start]
    session_scoped [OF u c, of "Fails Unreachable" start]
    session_scoped [OF u c, of Healthy start]
    session_scoped [OF u c, of "Retry RejectsQuery Healthy" start]
  show ?thesis by (simp add: e raised_simps runs_simps two)
qed

text \<open>
  C8 as stated, that exactly one write transaction runs for the event, fails: when the
  first attempt ends in a retryable error the driver begins a second transaction and the
  transaction function runs the query again, in the one \<^verbatim>\<open>write_transaction\<close> call.
\<close>

theorem session_runs_query_again:
  "count_list (calls (loop_body (Retry RejectsQuery Healthy)
      (JObj [(''user'', JStr ''alice''), (''category'', JStr ''electronics'')]) start))
      (TxRun (JStr ''alice'') (JStr ''electronics'')) = 2
   \<and> count_list (calls (loop_body (Retry RejectsQuery Healthy)
      (JObj [(''user'', JStr ''alice''), (''category'', JStr ''electronics'')]) start))
      (WriteTransaction (JStr ''alice'') (JStr ''electronics'')) = 1
   \<and> attempts (Retry RejectsQuery Healthy) = [Some RejectsQuery, None]"
  by (simp add: run_defs attempt_def update_graph_def start_def)

text \<open>
  C9. An event whose object has the keys \<^verbatim>\<open>user\<close> and \<^verbatim>\<open>category\<close> with values of any
  JSON type: line 42 is the call of \<^verbatim>\<open>write_transaction\<close> with exactly these values, the
  transaction function passes them to \<^verbatim>\<open>tx.run\<close> in every attempt that enters it, every
  call the iteration makes to the driver carries them unchanged, and when the store
  accepts them the success line is printed, once for every attempt in which \<^verbatim>\<open>tx.run\<close>
  returned, and no error.
\<close>

theorem no_type_validation:
  assumes "map_of kvs ''user'' = Some v1"
    and "map_of kvs ''category'' = Some v2"
  shows "write_event s (JObj kvs) w = write_transaction s v1 v2 w
    \<and> WriteTransaction v1 v2 \<in> set (calls (loop_body s (JObj kvs) w))
    \<and> (0 < runs s \<longrightarrow> TxRun v1 v2 \<in> set (calls (loop_body s (JObj kvs) w)))
    \<and> calls (loop_body s (JObj kvs) w) =
        calls w @ [SessionOpen, WriteTransaction v1 v2] @
          replicate (runs s) (TxRun v1 v2) @ [SessionClose]
    \<and> (raised s = None \<longrightarrow>
         stdout (loop_body s (JObj kvs) w) =
           stdout w @ Received (JObj kvs) # replicate (prints s) (GraphUpdated v1 v2))
    \<and> (s = Healthy \<longrightarrow>
         stdout (loop_body s (JObj kvs) w) = stdout w @ [Received (JObj kvs), GraphUpdated v1 v2])"
proof -
  have u: "subscript (JObj kvs) ''user'' = Inr v1" by (simp add: assms(1))
  have c: "subscript (JObj kvs) ''category'' = Inr v2" by (simp add: assms(2))
  have "write_event s (JObj kvs) w = write_transaction s v1 v2 w"
    by (simp add: write_event_def assms)
  then show ?thesis
    by (simp add: loop_body_written [OF u c] raised_simps prints_simps set_replicate_conv_if)
qed

text \<open>The user is a number and the category is null.\<close>

theorem no_type_validation_witness:
  "write_event Healthy (JObj [(''user'', JInt 7), (''category'', JNull)]) start =
     write_transaction Healthy (JInt 7) JNull start
   \<and> WriteTransaction (JInt 7) JNull \<in> set (calls (snd (main_loop example_decode example_loads
       [(payload_not_strings, Healthy)] start)))
   \<and> TxRun (JInt 7) JNull \<in> set (calls (snd (main_loop example_decode example_loads
       [(payload_not_strings, Healthy)] start)))
   \<and> stdout (snd (main_loop example_decode example_loads
       [(payload_not_strings, Healthy)] start)) =
       [Received (JObj [(''user'', JInt 7), (''category'', JNull)]), GraphUpdated (JInt 7) JNull]"
proof -
  let ?d = "JObj [(''user'', JInt 7), (''category'', JNull)]"
  have u: "map_of [(''user'', JInt 7), (''category'', JNull)] ''user'' = Some (JInt 7)" by simp
  have c: "map_of [(''user'', JInt 7), (''category'', JNull)] ''category'' = Some JNull" by simp
  have e: "stdout start = []" by (simp add: start_def)
  have n: "0 < runs Healthy" by (simp add: runs_simps)
  have r: "main_loop example_decode example_loads [(payload_not_strings, Healthy)] start =
      (Listening, loop_body Healthy ?d start)"
    by (simp add: example_not_strings)
  note t = no_type_validation [OF u c, of Healthy start]
  from t have 1: "write_event Healthy ?d start = write_transaction Healthy (JInt 7) JNull start"
    by blast
  from t have 2: "WriteTransaction (JInt 7) JNull \<in> set (calls (loop_body Healthy ?d start))"
    by blast
  from t n have 3: "TxRun (JInt 7) JNull \<in> set (calls (loop_body Healthy ?d start))"
    by blast
  from t have "stdout (loop_body Healthy ?d start) =
      stdout start @ [Received ?d, GraphUpdated (JInt 7) JNull]"
    by blast
  then have 4: "stdout (loop_body Healthy ?d start) = [Received ?d, GraphUpdated (JInt 7) JNull]"
    by (simp add: e)
  show ?thesis unfolding r snd_conv using 1 2 3 4 by blast
qed

text \<open>
  C10, as the code has it. The success line is printed by the transaction function right
  after \<^verbatim>\<open>tx.run\<close> has returned and before the commit: a message has as many success
  lines as it has attempts in which \<^verbatim>\<open>tx.run\<close> returned, whether the commit then
  succeeds or fails, and none when \<^verbatim>\<open>tx.run\<close> never returned. When the write ends in a
  failing commit the line is printed at least once, then the error, and the graph is
  unchanged: the line is no evidence of a committed write.
\<close>

theorem success_line_before_commit:
  assumes "subscript data ''user'' = Inr u"
    and "subscript data ''category'' = Inr c"
  shows "(GraphUpdated u c \<in> set (drop (length (stdout w)) (stdout (loop_body s data w)))) =
       (0 < prints s)
    \<and> count_list (drop (length (stdout w)) (stdout (loop_body s data w))) (GraphUpdated u c) =
        prints s
    \<and> (a \<noteq> Some RejectsQuery \<longrightarrow>
         snd (update_graph a tx u c w) = print (GraphUpdated u c) (called (TxRun u c) w))
    \<and> (raised s = Some FailsCommit \<longrightarrow>
         store_graph (loop_body s data w) = store_graph w \<and> 0 < prints s \<and>
         stdout (loop_body s data w) =
           stdout w @ Received data # replicate (prints s) (GraphUpdated u c) @
             [Neo4jErrorLine (Neo4jError FailsCommit)])
    \<and> (s = Fails FailsCommit \<longrightarrow>
         store_graph (loop_body s data w) = store_graph w \<and>
         stdout (loop_body s data w) =
           stdout w @ [Received data, GraphUpdated u c, Neo4jErrorLine (Neo4jError FailsCommit)])"
proof -
  have "(GraphUpdated u c \<in> set (drop (length (stdout w)) (stdout (loop_body s data w)))) =
       (0 < prints s)"
    by (cases "raised s") (auto simp: loop_body_written [OF assms] set_replicate_conv_if)
  moreover have "count_list (drop (length (stdout w)) (stdout (loop_body s data w)))
      (GraphUpdated u c) = prints s"
    by (cases "raised s") (simp_all add: loop_body_written [OF assms] count_list_replicate)
  moreover have "a \<noteq> Some RejectsQuery \<longrightarrow>
      snd (update_graph a tx u c w) = print (GraphUpdated u c) (called (TxRun u c) w)"
    by (simp add: update_graph_def Let_def)
  moreover have "raised s = Some FailsCommit \<longrightarrow>
      store_graph (loop_body s data w) = store_graph w \<and> 0 < prints s \<and>
      stdout (loop_body s data w) =
        stdout w @ Received data # replicate (prints s) (GraphUpdated u c) @
          [Neo4jErrorLine (Neo4jError FailsCommit)]"
    by (simp add: loop_body_written [OF assms] raised_prints)
  moreover have "s = Fails FailsCommit \<longrightarrow>
      store_graph (loop_body s data w) = store_graph w \<and>
      stdout (loop_body s data w) =
        stdout w @ [Received data, GraphUpdated u c, Neo4jErrorLine (Neo4jError FailsCommit)]"
    by (simp add: loop_body_written [OF assms] raised_simps prints_simps)
  ultimately show ?thesis by blast
qed

text \<open>The commit fails.\<close>

theorem success_line_before_commit_witness:
  "GraphUpdated (JStr ''alice'') (JStr ''electronics'') \<in> set (stdout (loop_body (Fails FailsCommit)
      (JObj [(''user'', JStr ''alice''), (''category'', JStr ''electronics'')]) start))
   \<and> store_graph (loop_body (Fails FailsCommit)
      (JObj [(''user'', JStr ''alice''), (''category'', JStr ''electronics'')]) start) = empty_graph
   \<and> stdout (loop_body (Fails FailsCommit)
      (JObj [(''user'', JStr ''alice''), (''category'', JStr ''electronics'')]) start) =
     [Received (JObj [(''user'', JStr ''alice''), (''category'', JStr ''electronics'')]),
      GraphUpdated (JStr ''alice'') (JStr ''electronics''),
      Neo4jErrorLine (Neo4jError FailsCommit)]"
proof -
  let ?d = "JObj [(''user'', JStr ''alice''), (''category'', JStr ''electronics'')]"
  have u: "subscript ?d ''user'' = Inr (JStr ''alice'')" by simp
  have c: "subscript ?d ''category'' = Inr (JStr ''electronics'')" by simp
  have e: "store_graph start = empty_graph" "stdout start = []" by (simp_all add: start_def)
  from success_line_before_commit [OF u c, of start "Fails FailsCommit"]
  show ?thesis by (simp add: e raised_simps prints_simps)
qed

text \<open>
  C10 as stated, that the line is emitted for every event whose transaction function
  runs, fails: when \<^verbatim>\<open>tx.run\<close> raises, the transaction function has run up to its query
  and the line is not printed.
\<close>

theorem success_line_not_for_every_run:
  "TxRun (JStr ''alice'') (JStr ''electronics'') \<in> set (calls (loop_body (Fails RejectsQuery)
      (JObj [(''user'', JStr ''alice''), (''category'', JStr ''electronics'')]) start))
   \<and> GraphUpdated (JStr ''alice'') (JStr ''electronics'') \<notin> set (stdout (loop_body (Fails RejectsQuery)
      (JObj [(''user'', JStr ''alice''), (''category'', JStr ''electronics'')]) start))
   \<and> stdout (loop_body (Fails RejectsQuery)
      (JObj [(''user'', JStr ''alice''), (''category'', JStr ''electronics'')]) start) =
     [Received (JObj [(''user'', JStr ''alice''), (''category'', JStr ''electronics'')]),
      Neo4jErrorLine (Neo4jError RejectsQuery)]"
  by (simp add: run_defs attempt_def update_graph_def start_def)

end
